theory Spec2Isabelle
  imports Main "HOL-Library.Word"
begin

section \<open>Data model\<close>

text \<open>
  A Python \<open>str\<close> is a sequence of Unicode code points, so it is modelled as a list of
  natural numbers (\<open>ord c\<close> of each character), not as a list of 8-bit characters.
\<close>

type_synonym pystr = "nat list"

definition ustr :: "string \<Rightarrow> pystr" where
  "ustr s = map of_char s"

text \<open>
  The values \<open>json.load\<close> produces: \<open>None\<close>, \<open>bool\<close>, \<open>int\<close> (unbounded), \<open>float\<close>
  (an IEEE double, kept as its 64-bit pattern), \<open>str\<close>, \<open>list\<close> and \<open>dict\<close>. A \<open>dict\<close>
  is an association list in insertion order, which is the order \<open>items()\<close> iterates in.
  A document that was just loaded is a tree: no container is shared between two places.
\<close>

datatype json =
    JNull
  | JBool bool
  | JInt int
  | JFloat "64 word"
  | JStr pystr
  | JList "json list"
  | JDict "(pystr \<times> json) list"

text \<open>The key under which a value sits in its container: a list index or a dict key.\<close>

datatype key = Idx nat | Key pystr

type_synonym triple = "json \<times> key \<times> json"

type_synonym value_processor = "json \<Rightarrow> key \<Rightarrow> json \<Rightarrow> bool"

section \<open>The selection predicate\<close>

definition ASCII_BUT_UNICODE :: "nat list" where
  "ASCII_BUT_UNICODE = [0x2018, 0xff08, 0xff09, 0xff0c]"

definition is_ascii :: "pystr \<Rightarrow> bool" where
  "is_ascii s = list_all (\<lambda>c. c < 128 \<or> c \<in> set ASCII_BUT_UNICODE) s"

definition strip_ascii :: "pystr \<Rightarrow> pystr" where
  "strip_ascii s = filter (\<lambda>c. c > 128 \<and> c \<notin> set ASCII_BUT_UNICODE) s"

fun valid_translate_value :: "json \<Rightarrow> key \<Rightarrow> json \<Rightarrow> bool" where
  "valid_translate_value (JStr s) key context = (if \<not> is_ascii s then True else False)"
| "valid_translate_value _ key context = False"

section \<open>The walker\<close>

text \<open>
  \<open>traverse_json\<close> is a generator; the list below is the sequence of triples it yields
  when nothing changes the document while it runs. \<open>traverse_list j i xs\<close> is the loop
  \<open>for i, x in enumerate(j)\<close> standing at index \<open>i\<close> with the elements \<open>xs\<close> still to
  come, and \<open>traverse_dict j kvs\<close> is the loop \<open>for k, v in j.items()\<close> with the entries
  \<open>kvs\<close> still to come.
\<close>

function traverse_json :: "json \<Rightarrow> value_processor \<Rightarrow> triple list"
  and traverse_list :: "json list \<Rightarrow> nat \<Rightarrow> json list \<Rightarrow> value_processor \<Rightarrow> triple list"
  and traverse_dict :: "(pystr \<times> json) list \<Rightarrow> (pystr \<times> json) list \<Rightarrow> value_processor \<Rightarrow> triple list"
where
  "traverse_json (JList j) value_processor = traverse_list j 0 j value_processor"
| "traverse_json (JDict j) value_processor = traverse_dict j j value_processor"
| "traverse_json JNull value_processor = []"
| "traverse_json (JBool b) value_processor = []"
| "traverse_json (JInt n) value_processor = []"
| "traverse_json (JFloat f) value_processor = []"
| "traverse_json (JStr s) value_processor = []"
| "traverse_list j i [] value_processor = []"
| "traverse_list j i (x # xs) value_processor =
     (if value_processor x (Idx i) (JList j) then [(x, Idx i, JList j)] else [])
     @ traverse_json x value_processor
     @ traverse_list j (i + 1) xs value_processor"
| "traverse_dict j [] value_processor = []"
| "traverse_dict j ((k, v) # kvs) value_processor =
     (if value_processor v (Key k) (JDict j) then [(v, Key k, JDict j)] else [])
     @ traverse_json v value_processor
     @ traverse_dict j kvs value_processor"
  by pat_completeness auto
termination
  by (relation "measure (\<lambda>a. case a of
        Inl (j, p) \<Rightarrow> size j
      | Inr (Inl (j, i, xs, p)) \<Rightarrow> size_list size xs
      | Inr (Inr (j, kvs, p)) \<Rightarrow> size_list (size_prod (\<lambda>k. 0) size) kvs)") auto

section \<open>The loop over the walker\<close>

text \<open>
  The generator is lazy: in \<open>for value, key, context in traverse_json(menu_json, p)\<close> the
  loop body runs between two steps of the generator, and the body of the second loop of
  \<open>main\<close> stores into \<open>context[key]\<close> while the walk is still under way. The functions
  below are that loop. The body gets the loop state and returns the new state together
  with the object it stored into \<open>context[key]\<close>, if it stored one; \<open>None\<close> as the
  result of the body or of the loop means that it does not complete (a retry loop that
  never ends, or an exception nobody catches).

  \<open>for_traverse_list p body done xs\<close> stands in the list whose elements before the
  current index are \<open>done\<close> (as they are now) and whose elements from the current index
  on are \<open>xs\<close>. After the body has run, the generator resumes with
  \<open>yield from traverse_json(x, p)\<close> on the object \<open>x\<close> it read before the body ran.
  The object the body stores is freshly built, so nothing done to \<open>x\<close> afterwards shows
  in it. A dict has each key once, so the entry for the current key is the current
  position of the association list.
\<close>

type_synonym 's body = "json \<Rightarrow> key \<Rightarrow> json \<Rightarrow> 's \<Rightarrow> (json option \<times> 's) option"

function for_traverse_json :: "value_processor \<Rightarrow> 's body \<Rightarrow> json \<Rightarrow> 's \<Rightarrow> (json \<times> 's) option"
  and for_traverse_list ::
    "value_processor \<Rightarrow> 's body \<Rightarrow> json list \<Rightarrow> json list \<Rightarrow> 's \<Rightarrow> (json list \<times> 's) option"
  and for_traverse_dict ::
    "value_processor \<Rightarrow> 's body \<Rightarrow> (pystr \<times> json) list \<Rightarrow> (pystr \<times> json) list \<Rightarrow> 's
       \<Rightarrow> ((pystr \<times> json) list \<times> 's) option"
where
  "for_traverse_json p body (JList j) s =
     (case for_traverse_list p body [] j s of
        None \<Rightarrow> None
      | Some (j', s') \<Rightarrow> Some (JList j', s'))"
| "for_traverse_json p body (JDict j) s =
     (case for_traverse_dict p body [] j s of
        None \<Rightarrow> None
      | Some (j', s') \<Rightarrow> Some (JDict j', s'))"
| "for_traverse_json p body JNull s = Some (JNull, s)"
| "for_traverse_json p body (JBool b) s = Some (JBool b, s)"
| "for_traverse_json p body (JInt n) s = Some (JInt n, s)"
| "for_traverse_json p body (JFloat f) s = Some (JFloat f, s)"
| "for_traverse_json p body (JStr t) s = Some (JStr t, s)"
| "for_traverse_list p body done [] s = Some (done, s)"
| "for_traverse_list p body done (x # xs) s =
     (if p x (Idx (length done)) (JList (done @ x # xs)) then
        (case body x (Idx (length done)) (JList (done @ x # xs)) s of
           None \<Rightarrow> None
         | Some (stored, s1) \<Rightarrow>
             (case for_traverse_json p body x s1 of
                None \<Rightarrow> None
              | Some (x', s2) \<Rightarrow>
                  for_traverse_list p body
                    (done @ [case stored of None \<Rightarrow> x' | Some r \<Rightarrow> r]) xs s2))
      else
        (case for_traverse_json p body x s of
           None \<Rightarrow> None
         | Some (x', s1) \<Rightarrow> for_traverse_list p body (done @ [x']) xs s1))"
| "for_traverse_dict p body done [] s = Some (done, s)"
| "for_traverse_dict p body done ((k, v) # kvs) s =
     (if p v (Key k) (JDict (done @ (k, v) # kvs)) then
        (case body v (Key k) (JDict (done @ (k, v) # kvs)) s of
           None \<Rightarrow> None
         | Some (stored, s1) \<Rightarrow>
             (case for_traverse_json p body v s1 of
                None \<Rightarrow> None
              | Some (v', s2) \<Rightarrow>
                  for_traverse_dict p body
                    (done @ [(k, case stored of None \<Rightarrow> v' | Some r \<Rightarrow> r)]) kvs s2))
      else
        (case for_traverse_json p body v s of
           None \<Rightarrow> None
         | Some (v', s1) \<Rightarrow> for_traverse_dict p body (done @ [(k, v')]) kvs s1))"
  by pat_completeness auto
termination
  by (relation "measure (\<lambda>a. case a of
        Inl (p, b, j, s) \<Rightarrow> size j
      | Inr (Inl (p, b, done, xs, s)) \<Rightarrow> size_list size xs
      | Inr (Inr (p, b, done, kvs, s)) \<Rightarrow> size_list (size_prod (\<lambda>k. 0) size) kvs)") auto

section \<open>Strings and dicts of the driver\<close>

text \<open>
  \<open>str.strip()\<close> without an argument removes leading and trailing whitespace, where
  whitespace is what \<open>str.isspace\<close> accepts: the code points below.
\<close>

definition py_isspace :: "nat \<Rightarrow> bool" where
  "py_isspace c =
     ((0x09 \<le> c \<and> c \<le> 0x0D) \<or> (0x1C \<le> c \<and> c \<le> 0x20) \<or> c = 0x85 \<or> c = 0xA0
      \<or> c = 0x1680 \<or> (0x2000 \<le> c \<and> c \<le> 0x200A) \<or> c = 0x2028 \<or> c = 0x2029
      \<or> c = 0x202F \<or> c = 0x205F \<or> c = 0x3000)"

definition py_strip :: "pystr \<Rightarrow> pystr" where
  "py_strip s = rev (dropWhile py_isspace (rev (dropWhile py_isspace s)))"

text \<open>\<open>d[k] = v\<close> on a dict: an existing key keeps its place, a new key goes last.\<close>

fun dict_setitem :: "(pystr \<times> json) list \<Rightarrow> pystr \<Rightarrow> json \<Rightarrow> (pystr \<times> json) list" where
  "dict_setitem [] k v = [(k, v)]"
| "dict_setitem ((k', v') # d) k v =
     (if k' = k then (k, v) # d else (k', v') # dict_setitem d k v)"


text \<open>
  \<open>context[key] = v\<close>: \<open>None\<close> where Python raises (an index out of range, a key of the
  wrong kind).
\<close>

fun setitem :: "json \<Rightarrow> key \<Rightarrow> json \<Rightarrow> json option" where
  "setitem (JList xs) (Idx i) v = (if i < length xs then Some (JList (xs[i := v])) else None)"
| "setitem (JDict d) (Key k) v = Some (JDict (dict_setitem d k v))"
| "setitem _ _ _ = None"

text \<open>
  \<open>"price" in context\<close>. On a dict this asks for a key; on a list it asks for an element
  equal to the string, and only a \<open>str\<close> is equal to a \<open>str\<close>. The walker hands the
  body no other kind of container.
\<close>

fun price_in :: "json \<Rightarrow> bool" where
  "price_in (JList xs) = (JStr (ustr ''price'') \<in> set xs)"
| "price_in (JDict d) = (ustr ''price'' \<in> fst ` set d)"
| "price_in _ = False"

section \<open>Page lookups\<close>

text \<open>
  What a call into the browser does is not in the program: it returns, or it raises.
  \<open>InvalidSessionIdException\<close> is the one exception \<open>get_page\<close> tells apart.
\<close>

datatype exn = InvalidSessionIdException | OtherException

record element =
  get_attribute :: "pystr \<Rightarrow> exn + json"
  getattr :: "pystr \<Rightarrow> exn + json"

record driver =
  get :: "pystr \<Rightarrow> exn option"
  find_element_by_xpath :: "pystr \<Rightarrow> exn + element"

text \<open>The loop \<open>for xpath, attr in xpaths\<close> of \<open>get_page\<close>; \<open>None\<close> is \<open>return None\<close>.\<close>

fun scrape :: "driver \<Rightarrow> (pystr \<times> pystr) list \<Rightarrow> json list \<Rightarrow> json list option" where
  "scrape driver [] results = Some results"
| "scrape driver ((xpath, attr) # xpaths) results =
     (case find_element_by_xpath driver xpath of
        Inl InvalidSessionIdException \<Rightarrow> None
      | Inl OtherException \<Rightarrow> scrape driver xpaths results
      | Inr el \<Rightarrow>
          (case (if take 1 attr = ustr ''@'' then get_attribute el (drop 1 attr) else getattr el attr) of
             Inl InvalidSessionIdException \<Rightarrow> None
           | Inl OtherException \<Rightarrow> scrape driver xpaths results
           | Inr r \<Rightarrow> scrape driver xpaths (results @ [r])))"

definition get_page :: "pystr \<Rightarrow> (pystr \<times> pystr) list \<Rightarrow> driver \<Rightarrow> json list option" where
  "get_page url xpaths driver =
     (let page = (case get driver url of None \<Rightarrow> True | Some e \<Rightarrow> False)
      in if page then scrape driver xpaths [] else Some [])"

section \<open>The enrichment loop of main\<close>

text \<open>
  The collaborators of \<open>main\<close> are parameters: \<open>browser w n c\<close> is how the \<open>n\<close>-th browser
  session answers during the \<open>c\<close>-th call of \<open>get_page\<close>, \<open>pinyin_get\<close> is \<open>pinyin.get\<close>
  with the delimiter \<open>" "\<close>, \<open>quote\<close> is \<open>urllib.parse.quote\<close>.
\<close>

record world =
  browser :: "nat \<Rightarrow> nat \<Rightarrow> driver"
  pinyin_get :: "pystr \<Rightarrow> pystr"
  quote :: "pystr \<Rightarrow> pystr"

text \<open>
  The state of the loop: \<open>idx\<close> is the counter \<open>j\<close> of \<open>enumerate\<close>; \<open>session\<close> says
  which session the variable \<open>driver\<close> holds, counting from 0 and going up by one each
  time \<open>driver\<close> is assigned a new one. Two history variables the program does not have:
  \<open>calls\<close> counts the calls of \<open>get_page\<close> so far, and only serves to ask the world for
  the answer to the next one; \<open>hist\<close> lists the record each iteration left in
  \<open>context[key]\<close>, with its \<open>j\<close>, in the order of the iterations, and nothing reads it.
\<close>

record state =
  idx :: nat
  session :: nat
  calls :: nat
  hist :: "(nat \<times> json) list"

definition search_xpaths :: "(pystr \<times> pystr) list" where
  "search_xpaths =
     [(ustr ''//*[contains(@class,'' @ [39] @ ustr ''kno-ecr-pt'' @ [39] @ ustr '')]/span'',
       ustr ''text''),
      (ustr ''//*[contains(@class,'' @ [39] @ ustr ''kno-ecr-pt'' @ [39]
         @ ustr '')]/following-sibling::node()/span'',
       ustr ''text'')]"

definition image_xpaths :: "(pystr \<times> pystr) list" where
  "image_xpaths =
     [(ustr ''//*[contains(@class,'' @ [39] @ ustr ''rg_i'' @ [39] @ ustr '')]'', ustr ''@src'')]"

definition search_url :: "world \<Rightarrow> pystr \<Rightarrow> pystr" where
  "search_url w s = ustr ''https://www.google.com/search?q='' @ quote w s"

definition image_url :: "world \<Rightarrow> pystr \<Rightarrow> pystr" where
  "image_url w s = ustr ''https://www.google.com/search?tbm=isch&q='' @ quote w s @ ustr ''+food''"

text \<open>
  The two \<open>while\<close> loops, entered with their variable \<open>None\<close>. Each round calls
  \<open>get_page\<close>, then tests \<open>google_search is None\<close> to decide on a new session (the second
  loop tests \<open>google_search\<close> too, as the source does), then tests its own variable to
  decide on another round.
\<close>

partial_function (option) search_loop :: "world \<Rightarrow> pystr \<Rightarrow> state \<Rightarrow> (json list \<times> state) option" where
  "search_loop w s st =
     (let google_search = get_page (search_url w s) search_xpaths (browser w (session st) (calls st));
          st1 = st\<lparr>calls := calls st + 1\<rparr>;
          st2 = (if google_search = None then st1\<lparr>session := session st1 + 1\<rparr> else st1)
      in case google_search of
           None \<Rightarrow> search_loop w s st2
         | Some r \<Rightarrow> Some (r, st2))"

partial_function (option) image_loop ::
  "world \<Rightarrow> pystr \<Rightarrow> json list option \<Rightarrow> state \<Rightarrow> (json list \<times> state) option" where
  "image_loop w s google_search st =
     (let google_img_search = get_page (image_url w s) image_xpaths (browser w (session st) (calls st));
          st1 = st\<lparr>calls := calls st + 1\<rparr>;
          st2 = (if google_search = None then st1\<lparr>session := session st1 + 1\<rparr> else st1)
      in case google_img_search of
           None \<Rightarrow> image_loop w s google_search st2
         | Some r \<Rightarrow> Some (r, st2))"

text \<open>Lines 138 to 159: both lookups, then the two fields they may add to the record.\<close>

definition price_lookups ::
  "world \<Rightarrow> pystr \<Rightarrow> (pystr \<times> json) list \<Rightarrow> state \<Rightarrow> ((pystr \<times> json) list \<times> state) option" where
  "price_lookups w s record st =
     (case search_loop w s st of
        None \<Rightarrow> None
      | Some (google_search, st1) \<Rightarrow>
          (case image_loop w s (Some google_search) st1 of
             None \<Rightarrow> None
           | Some (google_img_search, st2) \<Rightarrow>
               (let record1 = (if length google_search > 0
                               then dict_setitem record (ustr ''knowledge_graph'') (google_search ! 0)
                               else record);
                    record2 = (if length google_img_search > 0
                               then dict_setitem record1 (ustr ''google_image'') (google_img_search ! 0)
                               else record1)
                in Some (record2, st2))))"

text \<open>
  The body of the second loop, lines 125 to 164. The record is built in a local variable
  and is the object \<open>context[key]\<close> holds from line 129 on; \<open>"price" in context\<close> sees the
  container with that object in place. A \<open>value\<close> that is not a \<open>str\<close> cannot be iterated
  by \<open>strip_ascii\<close>.
\<close>

definition loop_body :: "world \<Rightarrow> pystr list option \<Rightarrow> state body" where
  "loop_body w translation_response value key context st =
     (case value of
        JStr s \<Rightarrow>
          (let j = idx st;
               record0 = [(ustr ''value'', value)];
               pinyin_value = py_strip (strip_ascii s);
               record1 = (if length pinyin_value > 0
                          then dict_setitem record0 (ustr ''pinyin'') (JStr (pinyin_get w (strip_ascii s)))
                          else record0)
           in case setitem context key (JDict record1) of
                None \<Rightarrow> None
              | Some context1 \<Rightarrow>
                  (case (if price_in context1 then price_lookups w s record1 st else Some (record1, st)) of
                     None \<Rightarrow> None
                   | Some (record2, st1) \<Rightarrow>
                       (let record3 =
                              (case translation_response of
                                 None \<Rightarrow> record2
                               | Some translations \<Rightarrow>
                                   if j < length translations
                                   then dict_setitem record2 (ustr ''translation'') (JStr (translations ! j))
                                   else record2)
                        in Some (Some (JDict record3),
                                 st1\<lparr>idx := j + 1, hist := hist st1 @ [(j, JDict record3)]\<rparr>))))
      | _ \<Rightarrow> None)"



section \<open>Notions used to state the properties\<close>

text \<open>
  \<open>sits_in v k c\<close>: the container \<open>c\<close> is a list or a dict and holds \<open>v\<close> under \<open>k\<close>.
  \<open>observe\<close> is a loop body that only notes the triple it is given, and \<open>walk_twice\<close>
  runs the loop over the walker with that body two times in a row, the second time on
  the document as the first left it.
\<close>

definition sits_in :: "json \<Rightarrow> key \<Rightarrow> json \<Rightarrow> bool" where
  "sits_in v k c =
     (case (c, k) of
        (JList xs, Idx i) \<Rightarrow> i < length xs \<and> xs ! i = v
      | (JDict d, Key n) \<Rightarrow> (n, v) \<in> set d
      | _ \<Rightarrow> False)"

definition observe :: "triple list body" where
  "observe value key context seen = Some (None, seen @ [(value, key, context)])"

definition walk_twice :: "value_processor \<Rightarrow> json \<Rightarrow> (triple list \<times> triple list) option" where
  "walk_twice p d =
     (case for_traverse_json p observe d [] of
        None \<Rightarrow> None
      | Some (d1, first) \<Rightarrow>
          (case for_traverse_json p observe d1 [] of
             None \<Rightarrow> None
           | Some (d2, second) \<Rightarrow> Some (first, second)))"






section \<open>Collaborators for concrete runs\<close>

text \<open>
  Browser sessions to run the model on: \<open>good_driver\<close> loads every page and finds every
  element; \<open>missing_driver\<close> loads the page and finds no element; \<open>lost_driver\<close> loads
  the page and then loses its session, so that looking for an element raises
  \<open>InvalidSessionIdException\<close>; \<open>dead_driver\<close> has no session any more, so that loading
  a page raises it already. In \<open>example_world\<close> the first session answers the first
  lookup, is lost during the second and is dead from then on, and every later session is
  good. In \<open>quiet_world\<close> every session is good.
\<close>

definition good_element :: element where
  "good_element =
     \<lparr>get_attribute = (\<lambda>name. Inr (JStr (ustr ''data:image''))),
      getattr = (\<lambda>name. Inr (JStr (ustr ''Peking duck'')))\<rparr>"

definition good_driver :: driver where
  "good_driver = \<lparr>get = (\<lambda>url. None), find_element_by_xpath = (\<lambda>xpath. Inr good_element)\<rparr>"

definition missing_driver :: driver where
  "missing_driver = \<lparr>get = (\<lambda>url. None), find_element_by_xpath = (\<lambda>xpath. Inl OtherException)\<rparr>"

definition lost_driver :: driver where
  "lost_driver =
     \<lparr>get = (\<lambda>url. None), find_element_by_xpath = (\<lambda>xpath. Inl InvalidSessionIdException)\<rparr>"

definition dead_driver :: driver where
  "dead_driver =
     \<lparr>get = (\<lambda>url. Some InvalidSessionIdException),
      find_element_by_xpath = (\<lambda>xpath. Inl InvalidSessionIdException)\<rparr>"

definition example_world :: world where
  "example_world =
     \<lparr>browser = (\<lambda>n c. if n = 0 \<and> c = 1 then lost_driver
                        else if n = 0 \<and> 1 < c then dead_driver
                        else good_driver),
      pinyin_get = (\<lambda>s. s),
      quote = (\<lambda>s. s)\<rparr>"

definition quiet_world :: world where
  "quiet_world = \<lparr>browser = (\<lambda>n c. good_driver), pinyin_get = (\<lambda>s. s), quote = (\<lambda>s. s)\<rparr>"

definition initial_state :: state where
  "initial_state = \<lparr>idx = 0, session = 0, calls = 0, hist = []\<rparr>"

section \<open>Properties of the selection predicate and of the walker\<close>

lemma is_ascii_iff: "is_ascii s \<longleftrightarrow> (\<forall>ch\<in>set s. ch < 128 \<or> ch \<in> {0x2018, 0xFF08, 0xFF09, 0xFF0C})"
  by (simp add: is_ascii_def ASCII_BUT_UNICODE_def list_all_iff)

text \<open>
  Claim C3. \<open>valid_translate_value\<close> selects a value exactly when it is a string with at
  least one character whose code point is not below 128 and is not one of U+2018, U+FF08,
  U+FF09, U+FF0C. Of "Hello", U+4F60 U+597D, U+4F60 U+597D ", world" U+FF08 "ok" U+FF09
  and "123", the second and the third are selected and the other two are not.
\<close>

theorem valid_translate_value_selects:
  "(valid_translate_value v k c \<longleftrightarrow>
      (\<exists>s. v = JStr s \<and> (\<exists>ch\<in>set s. \<not> ch < 128 \<and> ch \<notin> {0x2018, 0xFF08, 0xFF09, 0xFF0C})))
   \<and> \<not> valid_translate_value (JStr (ustr ''Hello'')) k c
   \<and> valid_translate_value (JStr [0x4F60, 0x597D]) k c
   \<and> valid_translate_value
        (JStr ([0x4F60, 0x597D] @ ustr '', world'' @ [0xFF08] @ ustr ''ok'' @ [0xFF09])) k c
   \<and> \<not> valid_translate_value (JStr (ustr ''123'')) k c"
proof -
  have "valid_translate_value v k c \<longleftrightarrow>
      (\<exists>s. v = JStr s \<and> (\<exists>ch\<in>set s. \<not> ch < 128 \<and> ch \<notin> {0x2018, 0xFF08, 0xFF09, 0xFF0C}))"
    by (cases v) (auto simp: is_ascii_iff)
  moreover have "\<not> valid_translate_value (JStr (ustr ''Hello'')) k c"
    by (simp add: is_ascii_iff ustr_def)
  moreover have "valid_translate_value (JStr [0x4F60, 0x597D]) k c"
    by (simp add: is_ascii_iff)
  moreover have "valid_translate_value
        (JStr ([0x4F60, 0x597D] @ ustr '', world'' @ [0xFF08] @ ustr ''ok'' @ [0xFF09])) k c"
    by (simp add: is_ascii_iff ustr_def)
  moreover have "\<not> valid_translate_value (JStr (ustr ''123'')) k c"
    by (simp add: is_ascii_iff ustr_def)
  ultimately show ?thesis by blast
qed

theorem valid_translate_value_selects_witness:
  "valid_translate_value (JStr [0x4F60, 0x597D]) (Idx 0) (JList [JStr [0x4F60, 0x597D]])
   \<and> (\<exists>ch\<in>set [0x4F60, 0x597D::nat]. \<not> ch < 128 \<and> ch \<notin> {0x2018, 0xFF08, 0xFF09, 0xFF0C})
   \<and> \<not> valid_translate_value (JStr [0xFF08, 0x41, 0xFF09]) (Idx 0) (JList [])
   \<and> \<not> valid_translate_value (JInt 7) (Key []) (JDict [])"
  using valid_translate_value_selects [of "JStr [0x4F60, 0x597D]" "Idx 0" "JList [JStr [0x4F60, 0x597D]]"]
  by (simp add: is_ascii_iff)

lemma upt_shift: "[i ..< i + Suc n] = i # [Suc i ..< Suc i + n]"
  by (simp add: upt_rec[of i])

lemma traverse_list_concat:
  "traverse_list j i xs p =
     concat (map (\<lambda>(n, x). (if p x (Idx n) (JList j) then [(x, Idx n, JList j)] else [])
                              @ traverse_json x p)
                 (zip [i ..< i + length xs] xs))"
proof (induction xs arbitrary: i)
  case Nil
  then show ?case by simp
next
  case (Cons x xs)
  have "[i ..< i + length (x # xs)] = i # [Suc i ..< Suc i + length xs]"
    using upt_shift[of i "length xs"] by simp
  then show ?case using Cons[of "Suc i"] by simp
qed

lemma traverse_dict_concat:
  "traverse_dict j kvs p =
     concat (map (\<lambda>(k, v). (if p v (Key k) (JDict j) then [(v, Key k, JDict j)] else [])
                              @ traverse_json v p) kvs)"
  by (induction kvs) auto

lemma zip_upt_nth: "zip [0 ..< length xs] xs = map (\<lambda>i. (i, xs ! i)) [0 ..< length xs]"
  by (rule nth_equalityI) simp_all

lemma traverse_json_JList:
  "traverse_json (JList xs) p =
     concat (map (\<lambda>i. (if p (xs ! i) (Idx i) (JList xs) then [(xs ! i, Idx i, JList xs)] else [])
                        @ traverse_json (xs ! i) p) [0 ..< length xs])"
proof -
  have "traverse_json (JList xs) p =
      concat (map (\<lambda>(n, x). (if p x (Idx n) (JList xs) then [(x, Idx n, JList xs)] else [])
                              @ traverse_json x p) (zip [0 ..< length xs] xs))"
    using traverse_list_concat[of xs 0 xs p] by simp
  then show ?thesis
    unfolding zip_upt_nth map_map comp_def by simp
qed

lemma traverse_json_JDict:
  "traverse_json (JDict kvs) p =
     concat (map (\<lambda>(k, v). (if p v (Key k) (JDict kvs) then [(v, Key k, JDict kvs)] else [])
                        @ traverse_json v p) kvs)"
  using traverse_dict_concat[of kvs kvs p] by simp

lemma size_member_list: "x \<in> set xs \<Longrightarrow> size x < Suc (size_list size xs)"
  by (induction xs) auto

lemma size_member_dict:
  "(k, v) \<in> set kvs \<Longrightarrow> size v < Suc (size_list (size_prod (\<lambda>k. 0) size) kvs)"
  by (induction kvs) auto

lemma traverse_json_inside:
  "(v, k, c) \<in> set (traverse_json d p) \<Longrightarrow> sits_in v k c \<and> size v < size d"
proof (induction d arbitrary: v k c)
  case (JList xs)
  from JList.prems obtain i where i: "i < length xs"
    and mem: "(v, k, c) \<in> set ((if p (xs ! i) (Idx i) (JList xs) then [(xs ! i, Idx i, JList xs)] else [])
                        @ traverse_json (xs ! i) p)"
    unfolding traverse_json_JList by auto
  have sz: "size (xs ! i) < size (JList xs)"
    using size_member_list[of "xs ! i" xs] i by simp
  from mem consider "(v, k, c) = (xs ! i, Idx i, JList xs)" | "(v, k, c) \<in> set (traverse_json (xs ! i) p)"
    by (auto split: if_splits)
  then show ?case
  proof cases
    case 1
    then show ?thesis using i sz by (simp add: sits_in_def)
  next
    case 2
    then show ?thesis using JList.IH[of "xs ! i" v k c] i sz by simp
  qed
next
  case (JDict kvs)
  from JDict.prems obtain n x where nx: "(n, x) \<in> set kvs"
    and mem: "(v, k, c) \<in> set ((if p x (Key n) (JDict kvs) then [(x, Key n, JDict kvs)] else [])
                        @ traverse_json x p)"
    unfolding traverse_json_JDict by auto
  have sz: "size x < size (JDict kvs)"
    using size_member_dict[OF nx] by simp
  from mem consider "(v, k, c) = (x, Key n, JDict kvs)" | "(v, k, c) \<in> set (traverse_json x p)"
    by (auto split: if_splits)
  then show ?case
  proof cases
    case 1
    then show ?thesis using nx sz by (simp add: sits_in_def)
  next
    case 2
    have "x \<in> Basic_BNFs.snds (n, x)" by simp
    then show ?thesis using JDict.IH[OF nx _ 2] sz by simp
  qed
qed simp_all

text \<open>
  Claim C9. On a root that is not a list or a dict the walker yields nothing, whatever the
  predicate says about the root. Every triple it yields has a value that sits in the
  yielded container under the yielded key and that is strictly smaller than the root, so
  it is never the root itself.
\<close>

theorem traverse_json_never_root:
  "traverse_json JNull p = [] \<and> traverse_json (JBool b) p = [] \<and> traverse_json (JInt n) p = []
   \<and> traverse_json (JFloat f) p = [] \<and> traverse_json (JStr s) p = []
   \<and> (\<forall>(v, k, c)\<in>set (traverse_json d p). sits_in v k c \<and> size v < size d)"
  using traverse_json_inside[of _ _ _ d p] by auto

theorem traverse_json_never_root_witness:
  "valid_translate_value (JStr [0x4F60, 0x597D]) (Idx 0) JNull
   \<and> traverse_json (JStr [0x4F60, 0x597D]) valid_translate_value = []
   \<and> sits_in (JStr [0x4F60, 0x597D]) (Idx 0) (JList [JStr [0x4F60, 0x597D]])
   \<and> size (JStr [0x4F60, 0x597D]) < size (JList [JStr [0x4F60, 0x597D]])
   \<and> traverse_json (JList [JStr [0x4F60, 0x597D]]) valid_translate_value
       = [(JStr [0x4F60, 0x597D], Idx 0, JList [JStr [0x4F60, 0x597D]])]"
  using traverse_json_never_root [of valid_translate_value True 0 0 "[0x4F60, 0x597D]" "JList [JStr [0x4F60, 0x597D]]"]
  by (simp add: is_ascii_iff)

text \<open>
  Claim C8. The sequence for a list is, for each index in increasing order, the element's
  own triple if the predicate holds of it, followed by the whole sequence of the element,
  which is there whether the predicate held or not. The sequence for a dict is the same
  over its entries in iteration order. So a matching composite is emitted first and then
  walked into.
\<close>

theorem traverse_json_preorder:
  "traverse_json (JList xs) p =
     concat (map (\<lambda>i. (if p (xs ! i) (Idx i) (JList xs) then [(xs ! i, Idx i, JList xs)] else [])
                        @ traverse_json (xs ! i) p) [0 ..< length xs])
   \<and> traverse_json (JDict kvs) p =
     concat (map (\<lambda>(k, v). (if p v (Key k) (JDict kvs) then [(v, Key k, JDict kvs)] else [])
                        @ traverse_json v p) kvs)"
  using traverse_json_JList[of xs p] traverse_json_JDict[of kvs p] by (rule conjI)

theorem traverse_json_preorder_witness:
  "traverse_json (JList [JList [JInt 1], JInt 2]) (\<lambda>v k c. v \<noteq> JInt 2)
     = [(JList [JInt 1], Idx 0, JList [JList [JInt 1], JInt 2]), (JInt 1, Idx 0, JList [JInt 1])]
   \<and> traverse_json (JDict [([97], JList [JInt 1])]) (\<lambda>v k c. False) = []"
  using traverse_json_preorder [of "[JList [JInt 1], JInt 2]" "\<lambda>v k c. v \<noteq> JInt 2" "[([97], JList [JInt 1])]"]
  by simp

section \<open>Loops whose body only observes\<close>

text \<open>A body that stores nothing and always completes.\<close>

lemma for_traverse_observer:
  fixes f :: "json \<Rightarrow> key \<Rightarrow> json \<Rightarrow> 's \<Rightarrow> 's"
  assumes b: "\<forall>v k c s. body v k c s = Some (None, f v k c s)"
  shows "for_traverse_json p body d s
           = Some (d, foldl (\<lambda>s (v, k, c). f v k c s) s (traverse_json d p))"
    and "for_traverse_list p body done xs s
           = Some (done @ xs, foldl (\<lambda>s (v, k, c). f v k c s) s
                                (traverse_list (done @ xs) (length done) xs p))"
    and "for_traverse_dict p body done' kvs s
           = Some (done' @ kvs, foldl (\<lambda>s (v, k, c). f v k c s) s
                                (traverse_dict (done' @ kvs) kvs p))"
  using b
proof (induction p body d s and p body "done" xs s and p body done' kvs s
       rule: for_traverse_json_for_traverse_list_for_traverse_dict.induct)
  case (9 p body "done" x xs s)
  let ?c = "JList (done @ x # xs)" and ?i = "Idx (length done)"
  note b = "9.prems"
  have bx: "body x ?i ?c s = Some (None, f x ?i ?c s)" using b by blast
  show ?case
  proof (cases "p x ?i ?c")
    case True
    note j = "9.IH"(1)[OF True bx refl b]
    note l = "9.IH"(2)[OF True bx refl j refl b]
    show ?thesis using True bx j l by simp
  next
    case False
    note j = "9.IH"(3)[OF False b]
    note l = "9.IH"(4)[OF False j refl b]
    show ?thesis using False j l by simp
  qed
next
  case (11 p body "done" k v kvs s)
  let ?c = "JDict (done @ (k, v) # kvs)" and ?i = "Key k"
  note b = "11.prems"
  have bx: "body v ?i ?c s = Some (None, f v ?i ?c s)" using b by blast
  show ?case
  proof (cases "p v ?i ?c")
    case True
    note j = "11.IH"(1)[OF True bx refl b]
    note l = "11.IH"(2)[OF True bx refl j refl b]
    show ?thesis using True bx j l by simp
  next
    case False
    note j = "11.IH"(3)[OF False b]
    note l = "11.IH"(4)[OF False j refl b]
    show ?thesis using False j l by simp
  qed
qed simp_all

lemma foldl_snoc: "foldl (\<lambda>s (v, k, c). s @ [g v k c]) seen ts = seen @ map (\<lambda>(v, k, c). g v k c) ts"
  by (induction ts arbitrary: seen) auto


lemma observe_walk: "for_traverse_json p observe d seen = Some (d, seen @ traverse_json d p)"
proof -
  have "\<forall>v k c s. observe v k c s = Some (None, s @ [(v, k, c)])"
    by (simp add: observe_def)
  from for_traverse_observer(1)[OF this, of p d seen] show ?thesis
    by (simp add: foldl_snoc)
qed


text \<open>
  Claim C1. Walking a document with a body that only notes each triple, and walking it
  again afterwards, completes both times and gives the same sequence of triples: the
  sequence of the generator on the document. (A container stands for itself: in a tree
  a container is the value at its place.)
\<close>

theorem walk_twice_identical:
  "walk_twice p d = Some (traverse_json d p, traverse_json d p)"
  by (simp add: walk_twice_def observe_walk)

theorem walk_twice_identical_witness:
  "walk_twice (\<lambda>v k c. True) (JList [JInt 1, JDict [([97], JNull)]])
     = Some ([(JInt 1, Idx 0, JList [JInt 1, JDict [([97], JNull)]]),
              (JDict [([97], JNull)], Idx 1, JList [JInt 1, JDict [([97], JNull)]]),
              (JNull, Key [97], JDict [([97], JNull)])],
             [(JInt 1, Idx 0, JList [JInt 1, JDict [([97], JNull)]]),
              (JDict [([97], JNull)], Idx 1, JList [JInt 1, JDict [([97], JNull)]]),
              (JNull, Key [97], JDict [([97], JNull)])])"
  using walk_twice_identical [of "\<lambda>v k c. True" "JList [JInt 1, JDict [([97], JNull)]]"]
  by simp

section \<open>The retry loops and the record\<close>










section \<open>The enriching loop visits the collected values in order\<close>














section \<open>Concrete runs\<close>

lemma get_page_good:
  "get_page url search_xpaths good_driver = Some [JStr (ustr ''Peking duck''), JStr (ustr ''Peking duck'')]"
  "get_page url image_xpaths good_driver = Some [JStr (ustr ''data:image'')]"
  by (simp_all add: get_page_def good_driver_def good_element_def search_xpaths_def image_xpaths_def ustr_def)

lemma get_page_lost: "get_page url image_xpaths lost_driver = None"
  by (simp add: get_page_def lost_driver_def image_xpaths_def)

lemma get_page_dead: "get_page url xpaths dead_driver = Some []"
  by (simp add: get_page_def dead_driver_def)




lemma search_example:
  "session st = 0 \<Longrightarrow> calls st = 0 \<Longrightarrow>
   search_loop example_world s st
     = Some ([JStr (ustr ''Peking duck''), JStr (ustr ''Peking duck'')], st\<lparr>calls := 1\<rparr>)"
  by (subst search_loop.simps) (simp add: example_world_def get_page_good)

lemma image_example:
  "session st = 0 \<Longrightarrow> calls st = 1 \<Longrightarrow>
   image_loop example_world s (Some g) st = Some ([], st\<lparr>calls := 3\<rparr>)"
  apply (subst image_loop.simps)
  apply (simp add: example_world_def get_page_lost)
  apply (subst image_loop.simps)
  apply (simp add: get_page_dead)
  done

section \<open>The record and the lookups of one iteration\<close>

lemma keys_dict_setitem: "fst ` set (dict_setitem d k v) = insert k (fst ` set d)"
  by (induction d k v rule: dict_setitem.induct) auto

lemma is_ascii_price: "is_ascii (ustr ''price'')"
  by (simp add: is_ascii_def ustr_def)

lemma price_in_setitem:
  assumes "sits_in (JStr s) key context" and "\<not> is_ascii s"
    and "setitem context key (JDict r) = Some c1"
  shows "price_in c1 \<longleftrightarrow> price_in context"
proof (cases "context")
  case (JList xs)
  with assms(1) obtain i where i: "key = Idx i" "i < length xs" "xs ! i = JStr s"
    by (cases key) (auto simp: sits_in_def)
  from assms(3) JList i have c1: "c1 = JList (xs[i := JDict r])" by simp
  have ne: "JStr s \<noteq> JStr (ustr ''price'')"
    using assms(2) is_ascii_price by auto
  have "JStr (ustr ''price'') \<in> set (xs[i := JDict r]) \<longleftrightarrow> JStr (ustr ''price'') \<in> set xs"
  proof
    assume "JStr (ustr ''price'') \<in> set (xs[i := JDict r])"
    then have "JStr (ustr ''price'') \<in> insert (JDict r) (set xs)"
      using set_update_subset_insert by fastforce
    then show "JStr (ustr ''price'') \<in> set xs" by simp
  next
    assume "JStr (ustr ''price'') \<in> set xs"
    then obtain n where n: "n < length xs" "xs ! n = JStr (ustr ''price'')"
      by (auto simp: in_set_conv_nth)
    with i ne have "n \<noteq> i" by auto
    with n have "(xs[i := JDict r]) ! n = JStr (ustr ''price'')" by simp
    with n(1) show "JStr (ustr ''price'') \<in> set (xs[i := JDict r])"
      by (metis length_list_update nth_mem)
  qed
  then show ?thesis by (simp add: c1 JList)
next
  case (JDict d)
  with assms(1) obtain k where k: "key = Key k" "(k, JStr s) \<in> set d"
    by (cases key) (auto simp: sits_in_def)
  from assms(3) JDict k have c1: "c1 = JDict (dict_setitem d k (JDict r))" by simp
  from k(2) have "k \<in> fst ` set d" by force
  then show ?thesis by (simp add: c1 JDict keys_dict_setitem insert_absorb)
qed (use assms(1) in \<open>simp_all add: sits_in_def\<close>)





section \<open>When the loops return\<close>

text \<open>
  The search loop ends at the first call that answers; every call before it returned
  \<open>None\<close> and was followed by a new session.
\<close>

lemma search_loop_returns:
  assumes "get_page (search_url w s) search_xpaths (browser w (session st + n) (calls st + n)) = Some r"
    and "\<forall>m<n. get_page (search_url w s) search_xpaths (browser w (session st + m) (calls st + m)) = None"
  shows "search_loop w s st = Some (r, st\<lparr>calls := calls st + n + 1, session := session st + n\<rparr>)"
  using assms
proof (induction n arbitrary: st)
  case 0
  then show ?case by (subst search_loop.simps) simp
next
  case (Suc n)
  let ?st2 = "st\<lparr>calls := calls st + 1, session := session st + 1\<rparr>"
  from Suc.prems(2) have none: "get_page (search_url w s) search_xpaths (browser w (session st) (calls st)) = None"
    by (metis add.right_neutral zero_less_Suc)
  have a: "get_page (search_url w s) search_xpaths (browser w (session ?st2 + n) (calls ?st2 + n)) = Some r"
    using Suc.prems(1) by simp
  have b: "\<forall>m<n. get_page (search_url w s) search_xpaths (browser w (session ?st2 + m) (calls ?st2 + m)) = None"
  proof (intro allI impI)
    fix m assume "m < n"
    then have "Suc m < Suc n" by simp
    with Suc.prems(2) have "get_page (search_url w s) search_xpaths
        (browser w (session st + Suc m) (calls st + Suc m)) = None" by blast
    then show "get_page (search_url w s) search_xpaths (browser w (session ?st2 + m) (calls ?st2 + m)) = None"
      by simp
  qed
  have "search_loop w s st = search_loop w s ?st2"
    by (subst search_loop.simps) (simp add: none)
  also have "\<dots> = Some (r, ?st2\<lparr>calls := calls ?st2 + n + 1, session := session ?st2 + n\<rparr>)"
    using Suc.IH[OF a b] .
  finally show ?case by simp
qed

text \<open>
  The image loop ends at the first call that answers too, but every call is made on the
  session the loop was entered with.
\<close>

lemma image_loop_returns:
  assumes "get_page (image_url w s) image_xpaths (browser w (session st) (calls st + n)) = Some r"
    and "\<forall>m<n. get_page (image_url w s) image_xpaths (browser w (session st) (calls st + m)) = None"
  shows "image_loop w s (Some g) st = Some (r, st\<lparr>calls := calls st + n + 1\<rparr>)"
  using assms
proof (induction n arbitrary: st)
  case 0
  then show ?case by (subst image_loop.simps) simp
next
  case (Suc n)
  let ?st2 = "st\<lparr>calls := calls st + 1\<rparr>"
  from Suc.prems(2) have none: "get_page (image_url w s) image_xpaths (browser w (session st) (calls st)) = None"
    by (metis add.right_neutral zero_less_Suc)
  have a: "get_page (image_url w s) image_xpaths (browser w (session ?st2) (calls ?st2 + n)) = Some r"
    using Suc.prems(1) by simp
  have b: "\<forall>m<n. get_page (image_url w s) image_xpaths (browser w (session ?st2) (calls ?st2 + m)) = None"
  proof (intro allI impI)
    fix m assume "m < n"
    then have "Suc m < Suc n" by simp
    with Suc.prems(2) have "get_page (image_url w s) image_xpaths
        (browser w (session st) (calls st + Suc m)) = None" by blast
    then show "get_page (image_url w s) image_xpaths (browser w (session ?st2) (calls ?st2 + m)) = None"
      by simp
  qed
  have "image_loop w s (Some g) st = image_loop w s (Some g) ?st2"
    by (subst image_loop.simps) (simp add: none)
  also have "\<dots> = Some (r, ?st2\<lparr>calls := calls ?st2 + n + 1\<rparr>)"
    using Suc.IH[OF a b] .
  finally show ?case by simp
qed

text \<open>What \<open>get_page\<close> returns, case by case.\<close>

lemma get_page_navigation_failed: "get driver url = Some e \<Longrightarrow> get_page url xpaths driver = Some []"
  by (simp add: get_page_def)

lemma get_page_None_iff:
  "get_page url xpaths driver = None \<longleftrightarrow> get driver url = None \<and> scrape driver xpaths [] = None"
  by (cases "get driver url") (simp_all add: get_page_def)

text \<open>Without \<open>price\<close> in the container an iteration always completes.\<close>

lemma loop_body_completes:
  assumes "sits_in (JStr s) key context" and "\<not> is_ascii s" and "\<not> price_in context"
  shows "\<exists>r st'. loop_body w translation_response (JStr s) key context st = Some (Some r, st')
           \<and> calls st' = calls st \<and> session st' = session st"
proof -
  define r0 where "r0 = (if length (py_strip (strip_ascii s)) > 0
                 then dict_setitem [(ustr ''value'', JStr s)] (ustr ''pinyin'') (JStr (pinyin_get w (strip_ascii s)))
                 else [(ustr ''value'', JStr s)])"
  from assms(1) obtain c1 where c1: "setitem context key (JDict r0) = Some c1"
    by (cases "context"; cases key) (auto simp: sits_in_def)
  from price_in_setitem[OF assms(1,2) c1] assms(3) have np: "\<not> price_in c1" by simp
  show ?thesis
    unfolding loop_body_def Let_def json.case r0_def[symmetric] c1 option.case
    using np by (cases translation_response) simp_all
qed

section \<open>The projection, and the lookups when a session is lost\<close>






text \<open>
  Claim C5 at a run where the session is lost during the image lookup. The search lookup
  succeeds on the first session (call 0). The image lookup returns \<open>None\<close> on call 1. The
  loop then retries on the same session, which by now is dead, gets the empty list on
  call 2 and stops: three calls, the session counter still 0, no \<open>google_image\<close> field. A
  new session would have found the image on that call. The second loop tests
  \<open>google_search\<close>, which is not \<open>None\<close> there, where the first tests its own variable.
\<close>

theorem image_retry_keeps_lost_session:
  "price_lookups example_world [0x70E4, 0x9E2D] [(ustr ''value'', JStr [0x70E4, 0x9E2D])] initial_state
     = Some ([(ustr ''value'', JStr [0x70E4, 0x9E2D]),
              (ustr ''knowledge_graph'', JStr (ustr ''Peking duck''))],
             \<lparr>idx = 0, session = 0, calls = 3, hist = []\<rparr>)
   \<and> get_page (image_url example_world [0x70E4, 0x9E2D]) image_xpaths (browser example_world 0 1) = None
   \<and> get_page (image_url example_world [0x70E4, 0x9E2D]) image_xpaths (browser example_world 0 2) = Some []
   \<and> get_page (image_url example_world [0x70E4, 0x9E2D]) image_xpaths (browser example_world 1 2)
       = Some [JStr (ustr ''data:image'')]"
proof -
  have s: "search_loop example_world [0x70E4, 0x9E2D] initial_state
      = Some ([JStr (ustr ''Peking duck''), JStr (ustr ''Peking duck'')], initial_state\<lparr>calls := 1\<rparr>)"
    by (rule search_example) (simp_all add: initial_state_def)
  have i: "image_loop example_world [0x70E4, 0x9E2D]
             (Some [JStr (ustr ''Peking duck''), JStr (ustr ''Peking duck'')]) (initial_state\<lparr>calls := 1\<rparr>)
      = Some ([], initial_state\<lparr>calls := 1, calls := 3\<rparr>)"
    by (rule image_example) (simp_all add: initial_state_def)
  have "price_lookups example_world [0x70E4, 0x9E2D] [(ustr ''value'', JStr [0x70E4, 0x9E2D])] initial_state
     = Some ([(ustr ''value'', JStr [0x70E4, 0x9E2D]),
              (ustr ''knowledge_graph'', JStr (ustr ''Peking duck''))],
             \<lparr>idx = 0, session = 0, calls = 3, hist = []\<rparr>)"
    unfolding price_lookups_def s option.case prod.case i
    by (simp add: initial_state_def ustr_def)
  moreover have "get_page (image_url example_world [0x70E4, 0x9E2D]) image_xpaths (browser example_world 0 1) = None"
    by (simp add: example_world_def get_page_lost)
  moreover have "get_page (image_url example_world [0x70E4, 0x9E2D]) image_xpaths (browser example_world 0 2) = Some []"
    by (simp add: example_world_def get_page_dead)
  moreover have "get_page (image_url example_world [0x70E4, 0x9E2D]) image_xpaths (browser example_world 1 2)
       = Some [JStr (ustr ''data:image'')]"
    by (simp add: example_world_def get_page_good)
  ultimately show ?thesis by (intro conjI)
qed

text \<open>
  Claim C6 at a driver whose session is already invalid when the page is requested:
  \<open>driver.get\<close> raises \<open>InvalidSessionIdException\<close>, the handler for any exception takes
  it, and \<open>get_page\<close> returns the empty list, not \<open>None\<close>. Raised while an element is
  looked up, the same exception gives \<open>None\<close>; an element that is not found gives a list.
\<close>

theorem get_page_swallows_session_loss:
  "get dead_driver (search_url quiet_world [0x70E4, 0x9E2D]) = Some InvalidSessionIdException
   \<and> get_page (search_url quiet_world [0x70E4, 0x9E2D]) search_xpaths dead_driver = Some []
   \<and> get_page (search_url quiet_world [0x70E4, 0x9E2D]) search_xpaths lost_driver = None
   \<and> get_page (search_url quiet_world [0x70E4, 0x9E2D]) search_xpaths missing_driver = Some []"
  by (simp add: get_page_def dead_driver_def lost_driver_def missing_driver_def search_xpaths_def)

end
